theory Spec2Isabelle
  imports Complex_Main
begin

section \<open>Python values and exceptions\<close>

text \<open>
  Landmarks are the pixel coordinates produced by \<open>HandTracker.get_hand_landmarks\<close>:
  a Python list of \<open>(int, int)\<close> tuples. Python integers are unbounded, so they are
  \<open>int\<close>.
\<close>

type_synonym point = "int \<times> int"
type_synonym landmarks = "point list"

text \<open>
  The exceptions. \<open>IndexError\<close>, \<open>ZeroDivisionError\<close> and \<open>ValueError\<close> are the ones
  the interpreter raises in the functions below (list index out of range, \<open>// 0\<close>,
  \<open>min\<close>/\<open>max\<close> of an empty sequence). \<open>InvalidFrameError\<close> and
  \<open>EmptyInputError\<close> are the names used by the specification; no function of
  \<open>hand_tracker.py\<close> or \<open>advanced_gestures.py\<close> raises them.
\<close>

datatype error =
  IndexError | ZeroDivisionError | ValueError | InvalidFrameError | EmptyInputError

definition getitem :: "'a list \<Rightarrow> nat \<Rightarrow> error + 'a" where
  \<comment> \<open>\<open>xs[i]\<close> for a non-negative constant index\<close>
  "getitem xs i = (if i < length xs then Inr (xs ! i) else Inl IndexError)"

definition floordiv :: "int \<Rightarrow> int \<Rightarrow> error + int" where
  \<comment> \<open>\<open>a // b\<close> on Python ints: floor division, \<open>ZeroDivisionError\<close> on \<open>b == 0\<close>\<close>
  "floordiv a b = (if b = 0 then Inl ZeroDivisionError else Inr (a div b))"

definition py_min :: "int list \<Rightarrow> error + int" where
  "py_min xs = (case xs of [] \<Rightarrow> Inl ValueError | x # rest \<Rightarrow> Inr (fold min rest x))"

definition py_max :: "int list \<Rightarrow> error + int" where
  "py_max xs = (case xs of [] \<Rightarrow> Inl ValueError | x # rest \<Rightarrow> Inr (fold max rest x))"

definition py_max_key :: "('a \<Rightarrow> nat) \<Rightarrow> 'a list \<Rightarrow> error + 'a" where
  \<comment> \<open>\<open>max(iterable, key=f)\<close>: the first item, in iteration order, whose key is
      maximal (a later item replaces the current one only when its key is strictly
      greater)\<close>
  "py_max_key key xs =
     (case xs of
        [] \<Rightarrow> Inl ValueError
      | x # rest \<Rightarrow> Inr (fold (\<lambda>item best. if key item > key best then item else best) rest x))"

section \<open>\<open>HandTracker\<close>: landmark indices\<close>

definition THUMB_TIP :: nat where "THUMB_TIP = 4"
definition THUMB_IP :: nat where "THUMB_IP = 3"
definition INDEX_TIP :: nat where "INDEX_TIP = 8"
definition INDEX_PIP :: nat where "INDEX_PIP = 6"
definition MIDDLE_TIP :: nat where "MIDDLE_TIP = 12"
definition MIDDLE_PIP :: nat where "MIDDLE_PIP = 10"
definition RING_TIP :: nat where "RING_TIP = 16"
definition RING_PIP :: nat where "RING_PIP = 14"
definition PINKY_TIP :: nat where "PINKY_TIP = 20"
definition PINKY_PIP :: nat where "PINKY_PIP = 18"

lemmas landmark_indices =
  THUMB_TIP_def THUMB_IP_def INDEX_TIP_def INDEX_PIP_def MIDDLE_TIP_def MIDDLE_PIP_def
  RING_TIP_def RING_PIP_def PINKY_TIP_def PINKY_PIP_def

section \<open>Finger states and the static gesture\<close>

definition x_greater :: "landmarks \<Rightarrow> nat \<Rightarrow> nat \<Rightarrow> error + bool" where
  \<comment> \<open>\<open>landmarks[a][0] > landmarks[b][0]\<close>\<close>
  "x_greater landmarks a b =
     (case getitem landmarks a of Inl e \<Rightarrow> Inl e | Inr p \<Rightarrow>
       (case getitem landmarks b of Inl e \<Rightarrow> Inl e | Inr q \<Rightarrow> Inr (fst p > fst q)))"

definition y_less :: "landmarks \<Rightarrow> nat \<Rightarrow> nat \<Rightarrow> error + bool" where
  \<comment> \<open>\<open>landmarks[a][1] < landmarks[b][1]\<close>\<close>
  "y_less landmarks a b =
     (case getitem landmarks a of Inl e \<Rightarrow> Inl e | Inr p \<Rightarrow>
       (case getitem landmarks b of Inl e \<Rightarrow> Inl e | Inr q \<Rightarrow> Inr (snd p < snd q)))"

definition is_finger_up :: "landmarks \<Rightarrow> string \<Rightarrow> error + bool" where
  "is_finger_up landmarks finger =
     (if finger = ''thumb'' then x_greater landmarks THUMB_TIP THUMB_IP
      else if finger = ''index'' then y_less landmarks INDEX_TIP INDEX_PIP
      else if finger = ''middle'' then y_less landmarks MIDDLE_TIP MIDDLE_PIP
      else if finger = ''ring'' then y_less landmarks RING_TIP RING_PIP
      else if finger = ''pinky'' then y_less landmarks PINKY_TIP PINKY_PIP
      else Inr False)"

fun count_loop :: "landmarks \<Rightarrow> string list \<Rightarrow> int \<Rightarrow> error + int" where
  \<comment> \<open>the \<open>for finger in fingers\<close> loop of \<open>count_fingers\<close>\<close>
  "count_loop landmarks [] count = Inr count"
| "count_loop landmarks (finger # fingers) count =
     (case is_finger_up landmarks finger of
        Inl e \<Rightarrow> Inl e
      | Inr up \<Rightarrow> count_loop landmarks fingers (if up then count + 1 else count))"

definition count_fingers :: "landmarks \<Rightarrow> error + int" where
  "count_fingers landmarks =
     count_loop landmarks [''thumb'', ''index'', ''middle'', ''ring'', ''pinky''] 0"

definition static_gesture :: "landmarks \<Rightarrow> error + string" where
  \<comment> \<open>lines 179 to 204 of \<open>recognize_gesture\<close>: the value of the local \<open>gesture\<close>
      before it is pushed into the history\<close>
  "static_gesture landmarks =
     (case count_fingers landmarks of
        Inl e \<Rightarrow> Inl e
      | Inr finger_count \<Rightarrow>
          if finger_count = 0 then Inr ''fist''
          else if finger_count = 1 then
            (case is_finger_up landmarks ''index'' of
               Inl e \<Rightarrow> Inl e
             | Inr index_up \<Rightarrow>
                 if index_up then Inr ''point''
                 else (case is_finger_up landmarks ''thumb'' of
                         Inl e \<Rightarrow> Inl e
                       | Inr thumb_up \<Rightarrow> if thumb_up then Inr ''thumbs_up'' else Inr ''one''))
          else if finger_count = 2 then
            (case is_finger_up landmarks ''index'' of
               Inl e \<Rightarrow> Inl e
             | Inr index_up \<Rightarrow>
                 if \<not> index_up then Inr ''two''
                 else (case is_finger_up landmarks ''middle'' of
                         Inl e \<Rightarrow> Inl e
                       | Inr middle_up \<Rightarrow> if middle_up then Inr ''peace'' else Inr ''two''))
          else if finger_count = 3 then Inr ''three''
          else if finger_count = 4 then Inr ''four''
          else if finger_count = 5 then Inr ''open_hand''
          else Inr ''unknown'')"

section \<open>The gesture history of \<open>HandTracker\<close>\<close>

record tracker =
  gesture_history :: "string list"
  gesture_buffer_size :: nat

definition HandTracker_init :: tracker where
  "HandTracker_init = \<lparr>gesture_history = [], gesture_buffer_size = 5\<rparr>"

definition push_gesture :: "string \<Rightarrow> tracker \<Rightarrow> tracker" where
  \<comment> \<open>\<open>append\<close>, then one \<open>pop(0)\<close> when the list is longer than the buffer size\<close>
  "push_gesture gesture t =
     (let h = gesture_history t @ [gesture]
      in t\<lparr>gesture_history := (if length h > gesture_buffer_size t then tl h else h)\<rparr>)"

text \<open>
  \<open>max(set(self.gesture_history), key=self.gesture_history.count)\<close> iterates over a
  Python set of strings. The order in which a set yields its elements is fixed by the
  hashes of the strings, which the interpreter randomises per process; it is not part of
  the program. It is therefore a parameter \<open>set_iter\<close>: the list of the elements of
  \<open>set(h)\<close> in the order the set yields them. \<open>iter_ok\<close> says that this list has each
  element of \<open>h\<close> exactly once.
\<close>

definition iter_ok :: "('a list \<Rightarrow> 'a list) \<Rightarrow> 'a list \<Rightarrow> bool" where
  "iter_ok set_iter h \<longleftrightarrow> distinct (set_iter h) \<and> set (set_iter h) = set h"

definition recognize_gesture ::
  "(string list \<Rightarrow> string list) \<Rightarrow> landmarks \<Rightarrow> tracker \<Rightarrow> (error + string) \<times> tracker" where
  \<comment> \<open>the result and the tracker afterwards; an exception leaves the tracker as it is,
      since every landmark access precedes the \<open>append\<close>\<close>
  "recognize_gesture set_iter landmarks t =
     (case static_gesture landmarks of
        Inl e \<Rightarrow> (Inl e, t)
      | Inr gesture \<Rightarrow>
          let t' = push_gesture gesture t; h = gesture_history t'
          in if h \<noteq> [] then (py_max_key (count_list h) (set_iter h), t')
             else (Inr gesture, t'))"

fun run_frames ::
  "(string list \<Rightarrow> string list) \<Rightarrow> landmarks list \<Rightarrow> tracker \<Rightarrow> (error + string) list \<times> tracker" where
  \<comment> \<open>one call of \<open>recognize_gesture\<close> per frame, the caller skipping a frame that raised\<close>
  "run_frames set_iter [] t = ([], t)"
| "run_frames set_iter (f # fs) t =
     (let (r, t') = recognize_gesture set_iter f t;
          (rs, t'') = run_frames set_iter fs t'
      in (r # rs, t''))"

section \<open>Geometry\<close>

definition get_hand_center :: "landmarks \<Rightarrow> error + point" where
  "get_hand_center landmarks =
     (let x_coords = map fst landmarks; y_coords = map snd landmarks
      in case floordiv (sum_list x_coords) (int (length x_coords)) of
           Inl e \<Rightarrow> Inl e
         | Inr center_x \<Rightarrow>
             (case floordiv (sum_list y_coords) (int (length y_coords)) of
                Inl e \<Rightarrow> Inl e
              | Inr center_y \<Rightarrow> Inr (center_x, center_y)))"

definition get_bounding_box :: "landmarks \<Rightarrow> error + (int \<times> int \<times> int \<times> int)" where
  "get_bounding_box landmarks =
     (let x_coords = map fst landmarks; y_coords = map snd landmarks
      in case py_min x_coords of Inl e \<Rightarrow> Inl e | Inr x_min \<Rightarrow>
        (case py_max x_coords of Inl e \<Rightarrow> Inl e | Inr x_max \<Rightarrow>
        (case py_min y_coords of Inl e \<Rightarrow> Inl e | Inr y_min \<Rightarrow>
        (case py_max y_coords of Inl e \<Rightarrow> Inl e | Inr y_max \<Rightarrow>
           Inr (x_min, y_min, x_max, y_max)))))"

section \<open>\<open>GestureController\<close>\<close>

text \<open>
  \<open>time.time()\<close> is read once per call; the reading is the argument \<open>current_time\<close>.
  Clock readings are Python floats and are modelled as real numbers.
\<close>

record controller =
  last_gesture :: "string option"
  gesture_start_time :: "real option"
  min_gesture_duration :: real

definition GestureController_init :: controller where
  "GestureController_init =
     \<lparr>last_gesture = None, gesture_start_time = None, min_gesture_duration = 1.0\<rparr>"

definition on_fist :: "landmarks \<Rightarrow> string" where
  "on_fist landmarks = ''Fist detected - Action: Reset''"

definition on_open_hand :: "landmarks \<Rightarrow> string" where
  "on_open_hand landmarks = ''Open hand detected - Action: Stop/Pause''"

definition on_point :: "landmarks \<Rightarrow> string" where
  "on_point landmarks = ''Point detected - Action: Select/Click''"

definition on_peace :: "landmarks \<Rightarrow> string" where
  "on_peace landmarks = ''Peace sign detected - Action: Victory/Confirm''"

definition on_thumbs_up :: "landmarks \<Rightarrow> string" where
  "on_thumbs_up landmarks = ''Thumbs up detected - Action: Approve/Like''"

definition on_one :: "landmarks \<Rightarrow> string" where
  "on_one landmarks = ''One finger detected - Action: Option 1''"

definition on_two :: "landmarks \<Rightarrow> string" where
  "on_two landmarks = ''Two fingers detected - Action: Option 2''"

definition on_three :: "landmarks \<Rightarrow> string" where
  "on_three landmarks = ''Three fingers detected - Action: Option 3''"

definition on_four :: "landmarks \<Rightarrow> string" where
  "on_four landmarks = ''Four fingers detected - Action: Option 4''"

definition gesture_actions :: "string \<rightharpoonup> (landmarks \<Rightarrow> string)" where
  "gesture_actions =
     map_of [(''fist'', on_fist), (''open_hand'', on_open_hand), (''point'', on_point),
             (''peace'', on_peace), (''thumbs_up'', on_thumbs_up), (''one'', on_one),
             (''two'', on_two), (''three'', on_three), (''four'', on_four)]"

definition held_long_enough :: "controller \<Rightarrow> real \<Rightarrow> bool" where
  \<comment> \<open>\<open>self.gesture_start_time and current_time - self.gesture_start_time >=
      self.min_gesture_duration\<close>: \<open>None\<close> and the float \<open>0.0\<close> are both false\<close>
  "held_long_enough c current_time =
     (case gesture_start_time c of
        None \<Rightarrow> False
      | Some start \<Rightarrow> start \<noteq> 0 \<and> current_time - start \<ge> min_gesture_duration c)"

definition process_gesture ::
  "real \<Rightarrow> string \<Rightarrow> landmarks \<Rightarrow> controller \<Rightarrow> string option \<times> controller" where
  "process_gesture current_time gesture landmarks c =
     (if Some gesture \<noteq> last_gesture c then
        (None, c\<lparr>last_gesture := Some gesture, gesture_start_time := Some current_time\<rparr>)
      else if held_long_enough c current_time then
        (case gesture_actions gesture of
           Some action \<Rightarrow> (Some (action landmarks), c\<lparr>gesture_start_time := None\<rparr>)
         | None \<Rightarrow> (None, c))
      else (None, c))"

fun run_gestures ::
  "(real \<times> string \<times> landmarks) list \<Rightarrow> controller \<Rightarrow> string option list \<times> controller" where
  \<comment> \<open>a sequence of calls, each with its clock reading, label and landmarks\<close>
  "run_gestures [] c = ([], c)"
| "run_gestures ((now, gesture, landmarks) # calls) c =
     (let (r, c') = process_gesture now gesture landmarks c;
          (rs, c'') = run_gestures calls c'
      in (r # rs, c''))"

definition hold :: "string \<Rightarrow> (real \<times> landmarks) list \<Rightarrow> (real \<times> string \<times> landmarks) list" where
  \<comment> \<open>consecutive calls that all pass the label \<open>gesture\<close>\<close>
  "hold gesture calls = map (\<lambda>(now, landmarks). (now, gesture, landmarks)) calls"

definition fired :: "string option list \<Rightarrow> string list" where
  \<comment> \<open>the results that are not \<open>None\<close>, in order\<close>
  "fired rs = concat (map (\<lambda>r. case r of None \<Rightarrow> [] | Some a \<Rightarrow> [a]) rs)"

section \<open>\<open>AdvancedGestureRecognizer\<close>\<close>

text \<open>
  \<open>math.sqrt\<close> and true division \<open>/\<close> produce Python floats; they are modelled by
  the real square root and real division.
\<close>

record recognizer =
  hand_positions_history :: "point list"
  position_history_size :: nat

definition AdvancedGestureRecognizer_init :: recognizer where
  "AdvancedGestureRecognizer_init =
     \<lparr>hand_positions_history = [], position_history_size = 30\<rparr>"

definition bind_err :: "error + 'a \<Rightarrow> ('a \<Rightarrow> error + 'b) \<Rightarrow> error + 'b" where
  "bind_err m f = (case m of Inl e \<Rightarrow> Inl e | Inr x \<Rightarrow> f x)"

definition calculate_distance :: "point \<Rightarrow> point \<Rightarrow> real" where
  \<comment> \<open>\<open>math.sqrt((p[0] - q[0])**2 + (p[1] - q[1])**2)\<close>, which the detectors write
      inline\<close>
  "calculate_distance p q = sqrt (real_of_int ((fst p - fst q)\<^sup>2 + (snd p - snd q)\<^sup>2))"

definition get_hand_center_adv :: "landmarks \<Rightarrow> error + point" where
  \<comment> \<open>\<open>AdvancedGestureRecognizer.get_hand_center\<close>\<close>
  "get_hand_center_adv landmarks =
     (let x_coords = map fst landmarks; y_coords = map snd landmarks
      in bind_err (floordiv (sum_list x_coords) (int (length x_coords))) (\<lambda>cx.
         bind_err (floordiv (sum_list y_coords) (int (length y_coords))) (\<lambda>cy.
         Inr (cx, cy))))"

definition calculate_hand_velocity :: "recognizer \<Rightarrow> landmarks \<Rightarrow> error + point" where
  "calculate_hand_velocity r landmarks =
     (if length (hand_positions_history r) < 2 then Inr (0, 0)
      else bind_err (get_hand_center_adv landmarks) (\<lambda>current_center.
           let prev_center = last (hand_positions_history r)
           in Inr (fst current_center - fst prev_center, snd current_center - snd prev_center)))"

definition detect_swipe_right :: "recognizer \<Rightarrow> landmarks \<Rightarrow> error + bool" where
  "detect_swipe_right r landmarks =
     bind_err (calculate_hand_velocity r landmarks) (\<lambda>velocity.
       Inr (fst velocity > 20 \<and> \<bar>snd velocity\<bar> < 10))"

definition detect_swipe_left :: "recognizer \<Rightarrow> landmarks \<Rightarrow> error + bool" where
  "detect_swipe_left r landmarks =
     bind_err (calculate_hand_velocity r landmarks) (\<lambda>velocity.
       Inr (fst velocity < - 20 \<and> \<bar>snd velocity\<bar> < 10))"

definition detect_pinch :: "recognizer \<Rightarrow> landmarks \<Rightarrow> error + bool" where
  "detect_pinch r landmarks =
     bind_err (getitem landmarks 4) (\<lambda>thumb_tip.
     bind_err (getitem landmarks 8) (\<lambda>index_tip.
       Inr (calculate_distance thumb_tip index_tip < 30)))"

fun spread_loop :: "point list \<Rightarrow> real \<Rightarrow> real" where
  \<comment> \<open>\<open>for i in range(len(fingertips) - 1)\<close>\<close>
  "spread_loop (p # q # rest) total_spread = spread_loop (q # rest) (total_spread + calculate_distance p q)"
| "spread_loop _ total_spread = total_spread"

definition detect_spread :: "recognizer \<Rightarrow> landmarks \<Rightarrow> error + bool" where
  "detect_spread r landmarks =
     bind_err (getitem landmarks 4) (\<lambda>f0.
     bind_err (getitem landmarks 8) (\<lambda>f1.
     bind_err (getitem landmarks 12) (\<lambda>f2.
     bind_err (getitem landmarks 16) (\<lambda>f3.
     bind_err (getitem landmarks 20) (\<lambda>f4.
       Inr (spread_loop [f0, f1, f2, f3, f4] 0 > 300))))))"

fun wave_loop :: "int list \<Rightarrow> nat \<Rightarrow> nat" where
  \<comment> \<open>\<open>for i in range(1, len(x_positions) - 1)\<close>, on the window \<open>i-1, i, i+1\<close>\<close>
  "wave_loop (a # b # c # rest) velocity_changes =
     wave_loop (b # c # rest)
       (if (b > a \<and> b > c) \<or> (b < a \<and> b < c) then velocity_changes + 1 else velocity_changes)"
| "wave_loop _ velocity_changes = velocity_changes"

definition detect_wave :: "recognizer \<Rightarrow> landmarks \<Rightarrow> error + bool" where
  "detect_wave r landmarks =
     (let h = hand_positions_history r
      in if length h < 20 then Inr False
         else let x_positions = map fst (drop (length h - 20) h)
              in Inr (wave_loop x_positions 0 > 3))"

definition detect_circle :: "recognizer \<Rightarrow> landmarks \<Rightarrow> error + bool" where
  "detect_circle r landmarks =
     (let h = hand_positions_history r
      in if length h < 15 then Inr False
         else let positions = drop (length h - 15) h;
                  center_x = real_of_int (sum_list (map fst positions)) / real (length positions);
                  center_y = real_of_int (sum_list (map snd positions)) / real (length positions);
                  radii = map (\<lambda>pos. sqrt ((real_of_int (fst pos) - center_x)\<^sup>2
                                         + (real_of_int (snd pos) - center_y)\<^sup>2)) positions
              in if radii \<noteq> [] then
                   let avg_radius = sum_list radii / real (length radii);
                       variance = sum_list (map (\<lambda>x. (x - avg_radius)\<^sup>2) radii) / real (length radii)
                   in Inr (variance < 1000 \<and> avg_radius > 30)
                 else Inr False)"

definition detect_ok_sign :: "recognizer \<Rightarrow> landmarks \<Rightarrow> error + bool" where
  "detect_ok_sign r landmarks =
     bind_err (getitem landmarks 4) (\<lambda>thumb_tip.
     bind_err (getitem landmarks 8) (\<lambda>index_tip.
     bind_err (getitem landmarks 3) (\<lambda>thumb_ip.
     bind_err (getitem landmarks 6) (\<lambda>index_pip.
     bind_err (y_less landmarks 12 10) (\<lambda>middle_up.
     bind_err (y_less landmarks 16 14) (\<lambda>ring_up.
     bind_err (y_less landmarks 20 18) (\<lambda>pinky_up.
       Inr (calculate_distance thumb_tip index_tip < 30 \<and> middle_up \<and> ring_up \<and> pinky_up))))))))"

definition detect_rock_on :: "recognizer \<Rightarrow> landmarks \<Rightarrow> error + bool" where
  \<comment> \<open>\<open>landmarks[12][1] > landmarks[10][1]\<close> is \<open>landmarks[10][1] < landmarks[12][1]\<close>,
      with the indices read in the order 12, 10\<close>
  "detect_rock_on r landmarks =
     bind_err (y_less landmarks 8 6) (\<lambda>index_up.
     bind_err (bind_err (getitem landmarks 12) (\<lambda>p. bind_err (getitem landmarks 10) (\<lambda>q.
                 Inr (snd p > snd q)))) (\<lambda>middle_down.
     bind_err (bind_err (getitem landmarks 16) (\<lambda>p. bind_err (getitem landmarks 14) (\<lambda>q.
                 Inr (snd p > snd q)))) (\<lambda>ring_down.
     bind_err (y_less landmarks 20 18) (\<lambda>pinky_up.
       Inr (index_up \<and> middle_down \<and> ring_down \<and> pinky_up)))))"

definition gesture_patterns :: "(string \<times> (recognizer \<Rightarrow> landmarks \<Rightarrow> error + bool)) list" where
  \<comment> \<open>the dict, in insertion order, which is the order \<open>items()\<close> yields\<close>
  "gesture_patterns =
     [(''swipe_right'', detect_swipe_right), (''swipe_left'', detect_swipe_left),
      (''pinch'', detect_pinch), (''spread'', detect_spread), (''wave'', detect_wave),
      (''circle'', detect_circle), (''ok_sign'', detect_ok_sign),
      (''rock_on'', detect_rock_on)]"

definition push_position :: "point \<Rightarrow> recognizer \<Rightarrow> recognizer" where
  "push_position center r =
     (let h = hand_positions_history r @ [center]
      in r\<lparr>hand_positions_history := (if length h > position_history_size r then tl h else h)\<rparr>)"

fun detect_loop ::
  "recognizer \<Rightarrow> landmarks \<Rightarrow> (string \<times> (recognizer \<Rightarrow> landmarks \<Rightarrow> error + bool)) list \<Rightarrow>
     string list \<Rightarrow> error + string list" where
  \<comment> \<open>\<open>for gesture_name, detector in self.gesture_patterns.items()\<close>\<close>
  "detect_loop r landmarks [] detected_gestures = Inr detected_gestures"
| "detect_loop r landmarks ((gesture_name, detector) # patterns) detected_gestures =
     (case detector r landmarks of
        Inl e \<Rightarrow> Inl e
      | Inr b \<Rightarrow>
          detect_loop r landmarks patterns
            (if b then detected_gestures @ [gesture_name] else detected_gestures))"

definition recognize_advanced_gestures ::
  "landmarks \<Rightarrow> recognizer \<Rightarrow> (error + string list) \<times> recognizer" where
  \<comment> \<open>the history is updated first; the detectors then run on the updated recognizer\<close>
  "recognize_advanced_gestures landmarks r =
     (case get_hand_center_adv landmarks of
        Inl e \<Rightarrow> (Inl e, r)
      | Inr center \<Rightarrow>
          let r' = push_position center r
          in (detect_loop r' landmarks gesture_patterns [], r'))"

section \<open>The specification's finger state and precedence order\<close>

text \<open>
  These three definitions follow the words of the specification, not the source: its
  FingerState (five booleans; a non-thumb finger is up iff the vertical coordinate of
  its tip is strictly less than that of its PIP joint, the thumb by the horizontal
  comparison of tip and IP joint), its finger count (the number of up fingers) and its
  precedence order for the static label. They are compared with \<open>is_finger_up\<close>,
  \<open>count_fingers\<close> and \<open>static_gesture\<close> below.
\<close>

record finger_state =
  fs_thumb :: bool
  fs_index :: bool
  fs_middle :: bool
  fs_ring :: bool
  fs_pinky :: bool

definition spec_finger_state :: "landmarks \<Rightarrow> finger_state" where
  "spec_finger_state lm =
     \<lparr>fs_thumb = fst (lm ! 4) > fst (lm ! 3),
      fs_index = snd (lm ! 8) < snd (lm ! 6),
      fs_middle = snd (lm ! 12) < snd (lm ! 10),
      fs_ring = snd (lm ! 16) < snd (lm ! 14),
      fs_pinky = snd (lm ! 20) < snd (lm ! 18)\<rparr>"

definition spec_finger_count :: "finger_state \<Rightarrow> int" where
  "spec_finger_count fs =
     int (length (filter id [fs_thumb fs, fs_index fs, fs_middle fs, fs_ring fs, fs_pinky fs]))"

definition spec_precedence_label :: "finger_state \<Rightarrow> string" where
  "spec_precedence_label fs =
     (let c = spec_finger_count fs
      in if c = 0 then ''fist''
         else if c = 1 \<and> fs_index fs then ''point''
         else if c = 1 \<and> fs_thumb fs then ''thumbs_up''
         else if c = 1 then ''one''
         else if c = 2 \<and> fs_index fs \<and> fs_middle fs then ''peace''
         else if c = 2 then ''two''
         else if c = 3 then ''three''
         else if c = 4 then ''four''
         else if c = 5 then ''open_hand''
         else ''unknown'')"

definition spec_arithmetic_mean :: "int list \<Rightarrow> real" where
  \<comment> \<open>the specification's arithmetic mean of a non-empty list of coordinates\<close>
  "spec_arithmetic_mean xs = real_of_int (sum_list xs) / real (length xs)"

section \<open>Concrete frames\<close>

definition fist_frame :: landmarks where
  "fist_frame = replicate 21 (100, 100)"

definition point_frame :: landmarks where
  "point_frame = replicate 8 (100, 100) @ [(100, 50)] @ replicate 12 (100, 100)"

definition frame_at :: "nat \<Rightarrow> point \<Rightarrow> landmarks" where
  "frame_at n p = replicate n p"

definition reverse_first_seen :: "string list \<Rightarrow> string list" where
  \<comment> \<open>one possible iteration order of \<open>set(h)\<close>: last-seen label first\<close>
  "reverse_first_seen h = rev (remdups h)"

section \<open>Finger states of a full frame\<close>

lemma is_finger_up_frame:
  assumes "21 \<le> length lm"
  shows "is_finger_up lm ''thumb'' = Inr (fs_thumb (spec_finger_state lm))"
    and "is_finger_up lm ''index'' = Inr (fs_index (spec_finger_state lm))"
    and "is_finger_up lm ''middle'' = Inr (fs_middle (spec_finger_state lm))"
    and "is_finger_up lm ''ring'' = Inr (fs_ring (spec_finger_state lm))"
    and "is_finger_up lm ''pinky'' = Inr (fs_pinky (spec_finger_state lm))"
  using assms
  by (simp_all add: is_finger_up_def x_greater_def y_less_def getitem_def landmark_indices
      spec_finger_state_def)

lemma count_fingers_frame:
  assumes "21 \<le> length lm"
  shows "count_fingers lm = Inr (spec_finger_count (spec_finger_state lm))"
  by (simp add: count_fingers_def is_finger_up_frame [OF assms] spec_finger_count_def)

lemma spec_finger_count_range: "0 \<le> spec_finger_count fs \<and> spec_finger_count fs \<le> 5"
  by (simp add: spec_finger_count_def)

lemma static_gesture_frame:
  assumes "21 \<le> length lm"
  shows "static_gesture lm = Inr (spec_precedence_label (spec_finger_state lm))"
  unfolding static_gesture_def count_fingers_frame [OF assms] is_finger_up_frame [OF assms]
    spec_precedence_label_def
  by (simp add: Let_def)

lemma spec_precedence_label_named:
  "spec_precedence_label fs \<in> {''fist'', ''point'', ''thumbs_up'', ''one'', ''two'', ''peace'',
      ''three'', ''four'', ''open_hand''}"
  using spec_finger_count_range [of fs] unfolding spec_precedence_label_def Let_def
  by (simp; presburger)

section \<open>\<open>max\<close> with a key\<close>

lemma fold_key_mem:
  "fold (\<lambda>item best. if key item > key best then item else best) xs b \<in> insert b (set xs)"
  by (induction xs arbitrary: b) auto

lemma fold_key_ge_start:
  "(key b :: nat) \<le> key (fold (\<lambda>item best. if key item > key best then item else best) xs b)"
proof (induction xs arbitrary: b)
  case Nil
  show ?case by simp
next
  case (Cons a xs)
  show ?case
  proof (cases "key a > key b")
    case True
    then show ?thesis using Cons.IH [of a] by simp
  next
    case False
    then show ?thesis using Cons.IH [of b] by simp
  qed
qed

lemma fold_key_max:
  "y \<in> insert b (set xs) \<Longrightarrow>
     (key y :: nat) \<le> key (fold (\<lambda>item best. if key item > key best then item else best) xs b)"
proof (induction xs arbitrary: b)
  case Nil
  then show ?case by simp
next
  case (Cons a xs)
  let ?f = "\<lambda>item best. if key item > key best then item else best"
  let ?b = "?f a b"
  have r: "fold ?f (a # xs) b = fold ?f xs ?b" by simp
  have ge: "key ?b \<le> key (fold ?f xs ?b)" by (rule fold_key_ge_start)
  have ab: "key a \<le> key ?b" "key b \<le> key ?b" by auto
  consider "y = a" | "y = b" | "y \<in> set xs" using Cons.prems by auto
  then show ?case
  proof cases
    case 1
    with ab(1) ge show ?thesis unfolding r by (blast intro: order_trans)
  next
    case 2
    with ab(2) ge show ?thesis unfolding r by (blast intro: order_trans)
  next
    case 3
    then have "y \<in> insert ?b (set xs)" by simp
    from Cons.IH [OF this] show ?thesis unfolding r .
  qed
qed

lemma fold_key_first:
  "y \<in> set (takeWhile (\<lambda>y. y \<noteq> fold (\<lambda>item best. if key item > key best then item else best) xs b) (b # xs)) \<Longrightarrow>
     (key y :: nat) < key (fold (\<lambda>item best. if key item > key best then item else best) xs b)"
proof (induction xs arbitrary: b y)
  case Nil
  then show ?case by simp
next
  case (Cons a xs)
  let ?f = "\<lambda>item best. if key item > key best then item else best"
  show ?case
  proof (cases "key a > key b")
    case True
    then have r: "fold ?f (a # xs) b = fold ?f xs a" by simp
    have ge: "key a \<le> key (fold ?f xs a)" by (rule fold_key_ge_start)
    from Cons.prems have "y = b \<or> y \<in> set (takeWhile (\<lambda>y. y \<noteq> fold ?f xs a) (a # xs))"
      unfolding r by (auto split: if_splits)
    then show ?thesis
    proof
      assume "y = b"
      then show ?thesis unfolding r using True ge by simp
    next
      assume "y \<in> set (takeWhile (\<lambda>y. y \<noteq> fold ?f xs a) (a # xs))"
      from Cons.IH [OF this] show ?thesis unfolding r .
    qed
  next
    case False
    then have r: "fold ?f (a # xs) b = fold ?f xs b" by simp
    from Cons.prems have ne: "b \<noteq> fold ?f xs b"
      unfolding r by (auto split: if_splits)
    then have "b \<in> set (takeWhile (\<lambda>y. y \<noteq> fold ?f xs b) (b # xs))" by simp
    from Cons.IH [OF this] have kb: "key b < key (fold ?f xs b)" .
    from Cons.prems ne have "y = b \<or> y = a \<or> y \<in> set (takeWhile (\<lambda>y. y \<noteq> fold ?f xs b) xs)"
      unfolding r by (auto split: if_splits)
    then consider "y = b" | "y = a" | "y \<in> set (takeWhile (\<lambda>y. y \<noteq> fold ?f xs b) xs)" by blast
    then show ?thesis
    proof cases
      case 1
      then show ?thesis unfolding r using kb by simp
    next
      case 2
      then show ?thesis unfolding r using kb False by simp
    next
      case 3
      with ne have "y \<in> set (takeWhile (\<lambda>y. y \<noteq> fold ?f xs b) (b # xs))" by simp
      from Cons.IH [OF this] show ?thesis unfolding r .
    qed
  qed
qed

lemma py_max_key_result:
  assumes "xs \<noteq> []"
  shows "\<exists>g. py_max_key key xs = Inr g \<and> g \<in> set xs \<and> (\<forall>y\<in>set xs. key y \<le> key g)
           \<and> (\<forall>y\<in>set (takeWhile (\<lambda>y. y \<noteq> g) xs). key y < key g)"
proof -
  from assms obtain x rest where xs: "xs = x # rest" by (cases xs) auto
  let ?g = "fold (\<lambda>item best. if key item > key best then item else best) rest x"
  have 1: "py_max_key key xs = Inr ?g" by (simp add: xs py_max_key_def)
  have 2: "?g \<in> set xs" using fold_key_mem [of key rest x] by (simp add: xs)
  have 3: "\<forall>y\<in>set xs. key y \<le> key ?g" using fold_key_max [of _ x rest key] by (simp add: xs)
  have 4: "\<forall>y\<in>set (takeWhile (\<lambda>y. y \<noteq> ?g) xs). key y < key ?g"
    using fold_key_first [of _ key rest x] unfolding xs by blast
  from 1 2 3 4 show ?thesis by blast
qed

lemma py_max_key_unique:
  assumes "g \<in> set xs" and "\<forall>y\<in>set xs. y \<noteq> g \<longrightarrow> key y < key g"
  shows "py_max_key key xs = Inr g"
proof -
  from assms(1) have "xs \<noteq> []" by auto
  from py_max_key_result [OF this, of key] obtain r where
    r: "py_max_key key xs = Inr r" "r \<in> set xs" "\<forall>y\<in>set xs. key y \<le> key r" by blast
  have "r = g"
  proof (rule ccontr)
    assume "r \<noteq> g"
    with assms(2) r(2) have "key r < key g" by blast
    moreover from r(3) assms(1) have "key g \<le> key r" by blast
    ultimately show False by simp
  qed
  with r(1) show ?thesis by simp
qed

section \<open>Frames of the wrong length\<close>

lemma is_finger_up_error: "is_finger_up lm f = Inl e \<Longrightarrow> e = IndexError"
  by (auto simp: is_finger_up_def x_greater_def y_less_def getitem_def
      split: if_splits sum.splits)

lemma pinky_short: "length lm < 21 \<Longrightarrow> is_finger_up lm ''pinky'' = Inl IndexError"
  by (simp add: is_finger_up_def y_less_def getitem_def landmark_indices)

lemma count_loop_short:
  "length lm < 21 \<Longrightarrow> ''pinky'' \<in> set fs \<Longrightarrow> count_loop lm fs c = Inl IndexError"
proof (induction fs arbitrary: c)
  case Nil
  then show ?case by simp
next
  case (Cons f fs)
  show ?case
  proof (cases "is_finger_up lm f")
    case (Inl e)
    then show ?thesis using is_finger_up_error [OF Inl] by simp
  next
    case (Inr up)
    with pinky_short [OF Cons.prems(1)] have "f \<noteq> ''pinky''" by auto
    with Cons.prems(2) have "''pinky'' \<in> set fs" by simp
    from Cons.IH [OF Cons.prems(1) this] Inr show ?thesis by simp
  qed
qed

lemma count_fingers_short: "length lm < 21 \<Longrightarrow> count_fingers lm = Inl IndexError"
  unfolding count_fingers_def by (rule count_loop_short) simp_all

lemma static_gesture_short: "length lm < 21 \<Longrightarrow> static_gesture lm = Inl IndexError"
  by (simp add: static_gesture_def count_fingers_short)

lemma finger_state_take: "21 \<le> length lm \<Longrightarrow> spec_finger_state (take 21 lm) = spec_finger_state lm"
  by (simp add: spec_finger_state_def)

lemma singleton_iter: "iter_ok si [g] \<Longrightarrow> py_max_key key (si [g]) = Inr g"
  by (rule py_max_key_unique) (auto simp: iter_ok_def)

lemma recognize_fresh:
  assumes "static_gesture lm = Inr g" and "iter_ok si [g]"
  shows "fst (recognize_gesture si lm HandTracker_init) = Inr g"
  using assms
  by (simp add: recognize_gesture_def push_gesture_def HandTracker_init_def Let_def
      singleton_iter)

text \<open>
  Claim C2. For every frame of 21 landmarks, \<open>is_finger_up\<close> computes the
  specification's finger state, \<open>count_fingers\<close> its number of up fingers, and the
  static label computed by \<open>recognize_gesture\<close> is the one the precedence order
  fixes: count 0 gives fist; count 1 with index up, point; count 1 with thumb up,
  thumbs_up; count 1 otherwise, one; count 2 with index and middle up, peace; count 2
  otherwise, two; count 3, three; count 4, four; count 5, open_hand; anything else,
  unknown. On a new tracker this label is also the value \<open>recognize_gesture\<close> returns.
\<close>

theorem static_gesture_precedence:
  assumes "length lm = 21"
  shows "is_finger_up lm ''thumb'' = Inr (fs_thumb (spec_finger_state lm))
       \<and> is_finger_up lm ''index'' = Inr (fs_index (spec_finger_state lm))
       \<and> is_finger_up lm ''middle'' = Inr (fs_middle (spec_finger_state lm))
       \<and> is_finger_up lm ''ring'' = Inr (fs_ring (spec_finger_state lm))
       \<and> is_finger_up lm ''pinky'' = Inr (fs_pinky (spec_finger_state lm))
       \<and> count_fingers lm = Inr (spec_finger_count (spec_finger_state lm))
       \<and> static_gesture lm = Inr (spec_precedence_label (spec_finger_state lm))
       \<and> (iter_ok si [spec_precedence_label (spec_finger_state lm)] \<longrightarrow>
            fst (recognize_gesture si lm HandTracker_init)
              = Inr (spec_precedence_label (spec_finger_state lm)))"
proof -
  from assms have len: "21 \<le> length lm" by simp
  show ?thesis
    using is_finger_up_frame [OF len] count_fingers_frame [OF len]
      static_gesture_frame [OF len] recognize_fresh [of lm _ si]
    by simp
qed

text \<open>
  The theorem at the frame whose index tip alone is raised.
\<close>

theorem static_gesture_precedence_witness:
  "length point_frame = 21
   \<and> is_finger_up point_frame ''index'' = Inr True
   \<and> count_fingers point_frame = Inr 1
   \<and> static_gesture point_frame = Inr ''point''
   \<and> iter_ok remdups [''point'']
   \<and> fst (recognize_gesture remdups point_frame HandTracker_init) = Inr ''point''"
proof -
  have len: "length point_frame = 21" by (simp add: point_frame_def)
  have fs: "spec_finger_state point_frame =
    \<lparr>fs_thumb = False, fs_index = True, fs_middle = False, fs_ring = False, fs_pinky = False\<rparr>"
    by (simp add: spec_finger_state_def point_frame_def nth_append)
  have lab: "spec_precedence_label (spec_finger_state point_frame) = ''point''"
    by (simp add: fs spec_precedence_label_def spec_finger_count_def)
  have cnt: "spec_finger_count (spec_finger_state point_frame) = 1"
    by (simp add: fs spec_finger_count_def)
  have ok: "iter_ok remdups [''point'']" by (simp add: iter_ok_def)
  have idx: "fs_index (spec_finger_state point_frame) = True" by (simp add: fs)
  show ?thesis
    using static_gesture_precedence [OF len, of remdups] len ok
    by (simp add: lab cnt idx)
qed

text \<open>
  Claim C10. For every frame of 21 landmarks \<open>count_fingers\<close> returns an integer
  between 0 and 5, and the static label is one of the nine named labels, never unknown:
  the last branch of the classifier cannot be reached.
\<close>

theorem count_fingers_range:
  assumes "length lm = 21"
  shows "\<exists>c g. count_fingers lm = Inr c \<and> 0 \<le> c \<and> c \<le> 5
            \<and> static_gesture lm = Inr g
            \<and> g \<in> {''fist'', ''point'', ''thumbs_up'', ''one'', ''two'', ''peace'',
                    ''three'', ''four'', ''open_hand''}
            \<and> g \<noteq> ''unknown''"
proof -
  from assms have len: "21 \<le> length lm" by simp
  let ?fs = "spec_finger_state lm"
  have "spec_precedence_label ?fs \<noteq> ''unknown''"
    using spec_precedence_label_named [of ?fs] by auto
  then show ?thesis
    using count_fingers_frame [OF len] static_gesture_frame [OF len]
      spec_finger_count_range [of ?fs] spec_precedence_label_named [of ?fs]
    by blast
qed

text \<open>
  The theorem at the frame of a closed hand.
\<close>

theorem count_fingers_range_witness:
  "length fist_frame = 21 \<and>
   (\<exists>c g. count_fingers fist_frame = Inr c \<and> 0 \<le> c \<and> c \<le> 5
            \<and> static_gesture fist_frame = Inr g
            \<and> g \<in> {''fist'', ''point'', ''thumbs_up'', ''one'', ''two'', ''peace'',
                    ''three'', ''four'', ''open_hand''}
            \<and> g \<noteq> ''unknown'')"
proof -
  have len: "length fist_frame = 21" by (simp add: fist_frame_def)
  from count_fingers_range [OF len] len show ?thesis by blast
qed

text \<open>
  A frame of 22 landmarks is not rejected: it is classified from its first 21 landmarks
  and its label enters the history. A frame of 20 landmarks raises \<open>IndexError\<close>,
  not \<open>InvalidFrameError\<close>.
\<close>

theorem malformed_frame_counterexample:
  "length (frame_at 22 (100, 100)) \<noteq> 21
   \<and> count_fingers (frame_at 22 (100, 100)) = Inr 0
   \<and> fst (recognize_gesture remdups (frame_at 22 (100, 100)) HandTracker_init) = Inr ''fist''
   \<and> gesture_history (snd (recognize_gesture remdups (frame_at 22 (100, 100)) HandTracker_init))
       = [''fist'']
   \<and> length (frame_at 20 (100, 100)) \<noteq> 21
   \<and> fst (recognize_gesture remdups (frame_at 20 (100, 100)) HandTracker_init) = Inl IndexError
   \<and> fst (recognize_gesture remdups (frame_at 20 (100, 100)) HandTracker_init)
       \<noteq> Inl InvalidFrameError"
  by (simp add: frame_at_def recognize_gesture_def static_gesture_def count_fingers_def
      is_finger_up_def x_greater_def y_less_def getitem_def landmark_indices
      push_gesture_def HandTracker_init_def py_max_key_def)

text \<open>
  Claim C3, as the code has it. A frame with fewer than 21 landmarks makes finger
  counting, static classification and \<open>recognize_gesture\<close> fail with Python's
  \<open>IndexError\<close>, and the tracker is left as it was: nothing of the frame is processed.
  A frame with more than 21 landmarks is accepted and classified as its first 21
  landmarks are.
\<close>

theorem malformed_frame_behaviour:
  "(length lm < 21 \<longrightarrow>
      count_fingers lm = Inl IndexError \<and> static_gesture lm = Inl IndexError
      \<and> recognize_gesture si lm t = (Inl IndexError, t))
   \<and> (21 < length lm \<longrightarrow>
      count_fingers lm = count_fingers (take 21 lm)
      \<and> static_gesture lm = static_gesture (take 21 lm)
      \<and> (\<exists>g. static_gesture lm = Inr g))"
proof (intro conjI impI)
  assume short: "length lm < 21"
  show "count_fingers lm = Inl IndexError" by (rule count_fingers_short [OF short])
  show "static_gesture lm = Inl IndexError" by (rule static_gesture_short [OF short])
  show "recognize_gesture si lm t = (Inl IndexError, t)"
    by (simp add: recognize_gesture_def static_gesture_short [OF short])
next
  assume "21 < length lm"
  then have len: "21 \<le> length lm" and len': "21 \<le> length (take 21 lm)" by simp_all
  show "count_fingers lm = count_fingers (take 21 lm)"
    by (simp only: count_fingers_frame [OF len] count_fingers_frame [OF len']
        finger_state_take [OF len])
  show "static_gesture lm = static_gesture (take 21 lm)"
    by (simp only: static_gesture_frame [OF len] static_gesture_frame [OF len']
        finger_state_take [OF len])
  show "\<exists>g. static_gesture lm = Inr g"
    using static_gesture_frame [OF len] by blast
qed

text \<open>
  The theorem at a frame of 20 and at a frame of 22 landmarks.
\<close>

theorem malformed_frame_behaviour_witness:
  "length (frame_at 20 (100, 100)) < 21
   \<and> recognize_gesture remdups (frame_at 20 (100, 100)) HandTracker_init
       = (Inl IndexError, HandTracker_init)
   \<and> 21 < length (frame_at 22 (100, 100))
   \<and> static_gesture (frame_at 22 (100, 100)) = static_gesture (take 21 (frame_at 22 (100, 100)))"
  using malformed_frame_behaviour [of "frame_at 20 (100, 100)" remdups HandTracker_init]
    malformed_frame_behaviour [of "frame_at 22 (100, 100)" remdups HandTracker_init]
  by (simp add: frame_at_def)

section \<open>The stabilizer window\<close>

lemma fist_frame_label: "static_gesture fist_frame = Inr ''fist''"
  by (simp add: static_gesture_def count_fingers_def is_finger_up_def x_greater_def y_less_def
      getitem_def landmark_indices fist_frame_def)

lemma point_frame_label: "static_gesture point_frame = Inr ''point''"
  by (simp add: static_gesture_def count_fingers_def is_finger_up_def x_greater_def y_less_def
      getitem_def landmark_indices point_frame_def nth_append)

lemma push_gesture_size [simp]: "gesture_buffer_size (push_gesture g t) = gesture_buffer_size t"
  by (simp add: push_gesture_def Let_def)

lemma push_gesture_window:
  assumes "length (gesture_history t) \<le> gesture_buffer_size t"
  shows "gesture_history (push_gesture g t)
           = drop (length (gesture_history t @ [g]) - gesture_buffer_size t) (gesture_history t @ [g])"
proof (cases "length (gesture_history t @ [g]) > gesture_buffer_size t")
  case True
  with assms have d: "length (gesture_history t @ [g]) - gesture_buffer_size t = 1" by simp
  have tl: "drop 1 (gesture_history t @ [g]) = tl (gesture_history t @ [g])"
    by (metis One_nat_def drop_0 drop_Suc)
  have "gesture_history (push_gesture g t) = tl (gesture_history t @ [g])"
    using True by (simp add: push_gesture_def Let_def)
  then show ?thesis unfolding d tl .
next
  case False
  then show ?thesis by (simp add: push_gesture_def Let_def)
qed

lemma push_gesture_length:
  assumes "length (gesture_history t) \<le> gesture_buffer_size t"
  shows "length (gesture_history (push_gesture g t)) \<le> gesture_buffer_size t"
  unfolding push_gesture_window [OF assms] using assms by simp

lemma push_gesture_last:
  assumes "0 < gesture_buffer_size t"
  shows "gesture_history (push_gesture g t) \<noteq> [] \<and> last (gesture_history (push_gesture g t)) = g"
proof (cases "length (gesture_history t @ [g]) > gesture_buffer_size t")
  case True
  with assms have "gesture_history t \<noteq> []" by auto
  then obtain x xs where "gesture_history t = x # xs" by (cases "gesture_history t") auto
  with True show ?thesis by (simp add: push_gesture_def Let_def)
next
  case False
  then show ?thesis by (simp add: push_gesture_def Let_def)
qed

lemma recognize_gesture_tracker:
  "static_gesture lm = Inr g \<Longrightarrow> snd (recognize_gesture si lm t) = push_gesture g t"
  by (simp add: recognize_gesture_def Let_def)

lemma recognize_gesture_result:
  "static_gesture lm = Inr g \<Longrightarrow> gesture_history (push_gesture g t) \<noteq> [] \<Longrightarrow>
     fst (recognize_gesture si lm t)
       = py_max_key (count_list (gesture_history (push_gesture g t)))
           (si (gesture_history (push_gesture g t)))"
  by (simp add: recognize_gesture_def Let_def)

lemma run_frames_snd_Cons:
  "snd (run_frames si (f # fs) t) = snd (run_frames si fs (snd (recognize_gesture si f t)))"
  by (simp add: split_beta Let_def)

lemma run_frames_Cons:
  "run_frames si (f # fs) t
     = (fst (recognize_gesture si f t) # fst (run_frames si fs (snd (recognize_gesture si f t))),
        snd (run_frames si fs (snd (recognize_gesture si f t))))"
  by (simp add: split_beta Let_def)

lemma run_frames_fst_Cons:
  "fst (run_frames si (f # fs) t)
     = fst (recognize_gesture si f t) # fst (run_frames si fs (snd (recognize_gesture si f t)))"
  by (simp add: split_beta Let_def)

declare run_frames.simps [simp del]

lemma run_frames_Nil [simp]: "run_frames si [] t = ([], t)"
  by (simp add: run_frames.simps)

lemma drop_drop_window:
  fixes xs :: "'a list"
  assumes "length xs \<le> b"
  shows "drop (length (drop (length (xs @ [g]) - b) (xs @ [g]) @ ys) - b)
              (drop (length (xs @ [g]) - b) (xs @ [g]) @ ys)
         = drop (length (xs @ g # ys) - b) (xs @ g # ys)"
proof (cases "length xs = b")
  case True
  then show ?thesis by (cases xs) (simp_all add: Suc_diff_le)
next
  case False
  with assms have "length xs < b" by simp
  then show ?thesis by simp
qed

lemma run_frames_window:
  assumes "map static_gesture fs = map Inr ls"
    and "length (gesture_history t) \<le> gesture_buffer_size t"
  shows "gesture_history (snd (run_frames si fs t))
           = drop (length (gesture_history t @ ls) - gesture_buffer_size t) (gesture_history t @ ls)
       \<and> gesture_buffer_size (snd (run_frames si fs t)) = gesture_buffer_size t"
  using assms
proof (induction fs arbitrary: t ls)
  case Nil
  then show ?case by simp
next
  case (Cons f fs)
  from Cons.prems(1) obtain g ls' where ls: "ls = g # ls'" and g: "static_gesture f = Inr g"
    and rest: "map static_gesture fs = map Inr ls'" by (cases ls) auto
  let ?t = "push_gesture g t"
  have len: "length (gesture_history ?t) \<le> gesture_buffer_size ?t"
    using push_gesture_length [OF Cons.prems(2)] by simp
  from Cons.IH [OF rest len]
  show ?case
    unfolding run_frames_snd_Cons recognize_gesture_tracker [OF g] ls
    using drop_drop_window [OF Cons.prems(2), of g ls']
    by (simp add: push_gesture_window [OF Cons.prems(2)] del: length_append length_drop)
qed

lemma five_frames_history:
  "gesture_history (snd (run_frames si
       [fist_frame, fist_frame, point_frame, fist_frame, fist_frame] HandTracker_init))
     = [''fist'', ''fist'', ''point'', ''fist'', ''fist'']"
proof -
  have m: "map static_gesture [fist_frame, fist_frame, point_frame, fist_frame, fist_frame]
             = map Inr [''fist'', ''fist'', ''point'', ''fist'', ''fist'']"
    by (simp add: fist_frame_label point_frame_label)
  have l: "length (gesture_history HandTracker_init) \<le> gesture_buffer_size HandTracker_init"
    by (simp add: HandTracker_init_def)
  from run_frames_window [OF m l, of si] show ?thesis
    by (simp add: HandTracker_init_def)
qed

lemma run_frames_last:
  "last (fst (run_frames si (fs @ [f]) t)) = fst (recognize_gesture si f (snd (run_frames si fs t)))"
proof (induction fs arbitrary: t)
  case Nil
  show ?case by (simp add: run_frames_Cons)
next
  case (Cons a fs)
  have ne: "fst (run_frames si (fs @ [f]) (snd (recognize_gesture si a t))) \<noteq> []"
    by (cases fs) (simp_all add: run_frames_Cons)
  show ?case
    using Cons.IH [of "snd (recognize_gesture si a t)"] ne
    by (simp add: run_frames_fst_Cons run_frames_snd_Cons)
qed

lemma five_frames_result:
  assumes "iter_ok si [''fist'', ''fist'', ''point'', ''fist'', ''fist'']"
  shows "last (fst (run_frames si
       [fist_frame, fist_frame, point_frame, fist_frame, fist_frame] HandTracker_init))
     = Inr ''fist''"
proof -
  let ?h = "[''fist'', ''fist'', ''point'', ''fist'', ''fist'']"
  let ?t4 = "snd (run_frames si [fist_frame, fist_frame, point_frame, fist_frame] HandTracker_init)"
  have m: "map static_gesture [fist_frame, fist_frame, point_frame, fist_frame]
             = map Inr [''fist'', ''fist'', ''point'', ''fist'']"
    by (simp add: fist_frame_label point_frame_label)
  have l: "length (gesture_history HandTracker_init) \<le> gesture_buffer_size HandTracker_init"
    by (simp add: HandTracker_init_def)
  from run_frames_window [OF m l, of si]
  have t4: "gesture_history ?t4 = [''fist'', ''fist'', ''point'', ''fist'']"
    "gesture_buffer_size ?t4 = 5"
    by (simp_all add: HandTracker_init_def)
  have h5: "gesture_history (push_gesture ''fist'' ?t4) = ?h"
    by (simp add: push_gesture_def Let_def t4)
  have mem: "''fist'' \<in> set (si ?h)"
    using assms by (simp add: iter_ok_def)
  have uniq: "\<forall>y\<in>set (si ?h). y \<noteq> ''fist'' \<longrightarrow> count_list ?h y < count_list ?h ''fist''"
    using assms by (auto simp: iter_ok_def)
  have "fst (recognize_gesture si fist_frame ?t4) = py_max_key (count_list ?h) (si ?h)"
    using recognize_gesture_result [OF fist_frame_label, of ?t4 si] by (simp add: h5)
  also have "\<dots> = Inr ''fist''" by (rule py_max_key_unique [OF mem uniq])
  finally show ?thesis
    using run_frames_last [of si "[fist_frame, fist_frame, point_frame, fist_frame]" fist_frame
        HandTracker_init]
    by simp
qed

text \<open>
  In the window \<open>[fist, fist, point, fist, fist]\<close> the label fist occurs four times,
  not three.
\<close>

theorem stabilizer_count_counterexample:
  "gesture_history (snd (run_frames remdups
       [fist_frame, fist_frame, point_frame, fist_frame, fist_frame] HandTracker_init))
     = [''fist'', ''fist'', ''point'', ''fist'', ''fist'']
   \<and> count_list [''fist'', ''fist'', ''point'', ''fist'', ''fist''] ''fist'' = 4
   \<and> count_list [''fist'', ''fist'', ''point'', ''fist'', ''fist''] ''fist'' \<noteq> 3"
  by (simp add: five_frames_history)

text \<open>
  Claim C6, with the count as the code computes it. Starting from a new tracker and
  pushing one static label per frame, the history holds the most recent labels, at most
  5 of them, the oldest being evicted. Feeding frames classified
  \<open>[fist, fist, point, fist, fist]\<close> leaves exactly this window and the last call
  returns fist, which occurs 4 times of 5 (point occurs once), whatever the order in
  which the set of labels is iterated.
\<close>

theorem stabilizer_window:
  assumes "map static_gesture fs = map Inr ls"
  shows "gesture_history (snd (run_frames si fs HandTracker_init)) = drop (length ls - 5) ls
       \<and> length (gesture_history (snd (run_frames si fs HandTracker_init))) \<le> 5
       \<and> (iter_ok si [''fist'', ''fist'', ''point'', ''fist'', ''fist''] \<longrightarrow>
            last (fst (run_frames si
              [fist_frame, fist_frame, point_frame, fist_frame, fist_frame] HandTracker_init))
              = Inr ''fist''
            \<and> gesture_history (snd (run_frames si
              [fist_frame, fist_frame, point_frame, fist_frame, fist_frame] HandTracker_init))
              = [''fist'', ''fist'', ''point'', ''fist'', ''fist'']
            \<and> count_list [''fist'', ''fist'', ''point'', ''fist'', ''fist''] ''fist'' = 4
            \<and> count_list [''fist'', ''fist'', ''point'', ''fist'', ''fist''] ''point'' = 1)"
proof -
  have l: "length (gesture_history HandTracker_init) \<le> gesture_buffer_size HandTracker_init"
    by (simp add: HandTracker_init_def)
  from run_frames_window [OF assms l, of si]
  have w: "gesture_history (snd (run_frames si fs HandTracker_init)) = drop (length ls - 5) ls"
    by (simp add: HandTracker_init_def)
  have "length (drop (length ls - 5) ls) \<le> 5" by simp
  with w show ?thesis
    using five_frames_result [of si] five_frames_history [of si] by simp
qed

text \<open>
  The theorem at six frames (the first label is evicted) and at the first-seen iteration
  order.
\<close>

theorem stabilizer_window_witness:
  "map static_gesture [point_frame, fist_frame, fist_frame, point_frame, fist_frame, fist_frame]
     = map Inr [''point'', ''fist'', ''fist'', ''point'', ''fist'', ''fist'']
   \<and> gesture_history (snd (run_frames remdups
        [point_frame, fist_frame, fist_frame, point_frame, fist_frame, fist_frame]
        HandTracker_init))
       = [''fist'', ''fist'', ''point'', ''fist'', ''fist'']
   \<and> iter_ok remdups [''fist'', ''fist'', ''point'', ''fist'', ''fist'']
   \<and> last (fst (run_frames remdups
        [fist_frame, fist_frame, point_frame, fist_frame, fist_frame] HandTracker_init))
       = Inr ''fist''"
proof -
  have m: "map static_gesture
       [point_frame, fist_frame, fist_frame, point_frame, fist_frame, fist_frame]
     = map Inr [''point'', ''fist'', ''fist'', ''point'', ''fist'', ''fist'']"
    by (simp add: fist_frame_label point_frame_label)
  have ok: "iter_ok remdups [''fist'', ''fist'', ''point'', ''fist'', ''fist'']"
    by (auto simp: iter_ok_def)
  from stabilizer_window [OF m, of remdups] m ok show ?thesis by simp
qed

text \<open>
  With a window of size 2 holding \<open>[point, fist]\<close> and a set that yields fist before
  point, the second call returns fist, which is not the first-seen label.
\<close>

theorem tie_break_counterexample:
  "iter_ok reverse_first_seen [''point'', ''fist'']
   \<and> count_list [''point'', ''fist''] ''point'' = count_list [''point'', ''fist''] ''fist''
   \<and> run_frames reverse_first_seen [point_frame, fist_frame]
        (HandTracker_init\<lparr>gesture_buffer_size := 2\<rparr>)
       = ([Inr ''point'', Inr ''fist''],
          \<lparr>gesture_history = [''point'', ''fist''], gesture_buffer_size = 2\<rparr>)"
  by (auto simp: iter_ok_def reverse_first_seen_def recognize_gesture_def fist_frame_label
      point_frame_label push_gesture_def HandTracker_init_def py_max_key_def Let_def
      run_frames_Cons)

text \<open>
  Claim C7, as the code has it. Whenever the window after the push is not empty,
  \<open>recognize_gesture\<close> returns a label of the window with the highest occurrence
  count; among tied labels it returns the one that the iteration over
  \<open>set(gesture_history)\<close> yields first (every label yielded before it has a strictly
  smaller count). Which tied label that is depends on the set's iteration order, not on
  the order in which the labels were seen.
\<close>

theorem tie_break_by_set_iteration:
  assumes "static_gesture lm = Inr raw"
    and "h = gesture_history (push_gesture raw t)"
    and "h \<noteq> []"
    and "iter_ok si h"
  shows "\<exists>g. fst (recognize_gesture si lm t) = Inr g
           \<and> g \<in> set h
           \<and> (\<forall>x\<in>set h. count_list h x \<le> count_list h g)
           \<and> (\<forall>y\<in>set (takeWhile (\<lambda>y. y \<noteq> g) (si h)). count_list h y < count_list h g)"
proof -
  from assms(3,4) have ne: "si h \<noteq> []" by (auto simp: iter_ok_def)
  from py_max_key_result [OF ne, of "count_list h"] obtain g where
    g: "py_max_key (count_list h) (si h) = Inr g" "g \<in> set (si h)"
       "\<forall>y\<in>set (si h). count_list h y \<le> count_list h g"
       "\<forall>y\<in>set (takeWhile (\<lambda>y. y \<noteq> g) (si h)). count_list h y < count_list h g"
    by blast
  have r: "fst (recognize_gesture si lm t) = Inr g"
    using recognize_gesture_result [OF assms(1), of t si] assms(2,3) g(1) by simp
  from assms(4) have s: "set (si h) = set h" by (simp add: iter_ok_def)
  from r g(2,3,4) show ?thesis unfolding s by blast
qed

text \<open>
  The theorem at the window \<open>[point, fist]\<close>, for two iteration orders.
\<close>

theorem tie_break_by_set_iteration_witness:
  "static_gesture fist_frame = Inr ''fist''
   \<and> [''point'', ''fist'']
       = gesture_history (push_gesture ''fist''
           \<lparr>gesture_history = [''point''], gesture_buffer_size = 2\<rparr>)
   \<and> iter_ok remdups [''point'', ''fist'']
   \<and> iter_ok reverse_first_seen [''point'', ''fist'']
   \<and> (\<exists>g. fst (recognize_gesture remdups fist_frame
              \<lparr>gesture_history = [''point''], gesture_buffer_size = 2\<rparr>) = Inr g
         \<and> g \<in> set [''point'', ''fist''])
   \<and> (\<exists>g. fst (recognize_gesture reverse_first_seen fist_frame
              \<lparr>gesture_history = [''point''], gesture_buffer_size = 2\<rparr>) = Inr g
         \<and> g \<in> set [''point'', ''fist''])"
proof -
  let ?t = "\<lparr>gesture_history = [''point''], gesture_buffer_size = 2\<rparr>"
  have h: "[''point'', ''fist''] = gesture_history (push_gesture ''fist'' ?t)"
    by (simp add: push_gesture_def Let_def)
  have ne: "[''point'', ''fist''] \<noteq> []" by simp
  have ok1: "iter_ok remdups [''point'', ''fist'']" by (simp add: iter_ok_def)
  have ok2: "iter_ok reverse_first_seen [''point'', ''fist'']"
    by (auto simp: iter_ok_def reverse_first_seen_def)
  from tie_break_by_set_iteration [OF fist_frame_label h ne ok1]
    tie_break_by_set_iteration [OF fist_frame_label h ne ok2]
    fist_frame_label h ok1 ok2
  show ?thesis by blast
qed

text \<open>
  After three frames classified point and one classified fist, the next call on the fist
  frame returns point and the call after it, on the same landmark list, returns fist.
\<close>

theorem repeated_call_counterexample:
  "fst (recognize_gesture remdups fist_frame
          (snd (run_frames remdups [point_frame, point_frame, point_frame, fist_frame]
                  HandTracker_init))) = Inr ''point''
   \<and> fst (recognize_gesture remdups fist_frame
          (snd (run_frames remdups
                  [point_frame, point_frame, point_frame, fist_frame, fist_frame]
                  HandTracker_init))) = Inr ''fist''"
  by (simp add: recognize_gesture_def fist_frame_label
      point_frame_label push_gesture_def HandTracker_init_def py_max_key_def Let_def
      run_frames_Cons)

text \<open>
  Claim C4, restricted to the static label. For frames of 21 landmarks the static label
  is a function of the finger state alone: two frames with the same finger state get
  the same static label, and two successive calls of \<open>recognize_gesture\<close> on the same
  landmark list push that same label into the history. (The value the calls return is
  the majority of the window and may differ between them.)
\<close>

theorem static_label_deterministic:
  assumes "length lm = 21" and "length lm' = 21" and "spec_finger_state lm = spec_finger_state lm'"
  shows "static_gesture lm = static_gesture lm'
       \<and> (\<exists>g. static_gesture lm = Inr g
            \<and> (0 < gesture_buffer_size t \<longrightarrow>
                 last (gesture_history (snd (recognize_gesture si lm t))) = g
               \<and> last (gesture_history
                    (snd (recognize_gesture si lm (snd (recognize_gesture si lm t))))) = g))"
proof -
  from assms have len: "21 \<le> length lm" "21 \<le> length lm'" by simp_all
  let ?g = "spec_precedence_label (spec_finger_state lm)"
  have g: "static_gesture lm = Inr ?g" by (rule static_gesture_frame [OF len(1)])
  have eq: "static_gesture lm = static_gesture lm'"
    by (simp only: static_gesture_frame [OF len(1)] static_gesture_frame [OF len(2)] assms(3))
  have imp: "0 < gesture_buffer_size t \<longrightarrow>
          last (gesture_history (snd (recognize_gesture si lm t))) = ?g
        \<and> last (gesture_history
             (snd (recognize_gesture si lm (snd (recognize_gesture si lm t))))) = ?g"
    using push_gesture_last [of t ?g] push_gesture_last [of "push_gesture ?g t" ?g]
    by (simp add: recognize_gesture_tracker [OF g])
  show ?thesis
  proof (intro conjI exI)
    show "static_gesture lm = static_gesture lm'" by (rule eq)
    show "static_gesture lm = Inr ?g" by (rule g)
    show "0 < gesture_buffer_size t \<longrightarrow>
          last (gesture_history (snd (recognize_gesture si lm t))) = ?g
        \<and> last (gesture_history
             (snd (recognize_gesture si lm (snd (recognize_gesture si lm t))))) = ?g"
      by (rule imp)
  qed
qed

text \<open>
  The theorem at two closed-hand frames with different coordinates.
\<close>

theorem static_label_deterministic_witness:
  "length fist_frame = 21 \<and> length (frame_at 21 (7, 7)) = 21
   \<and> spec_finger_state fist_frame = spec_finger_state (frame_at 21 (7, 7))
   \<and> static_gesture fist_frame = static_gesture (frame_at 21 (7, 7))
   \<and> 0 < gesture_buffer_size HandTracker_init
   \<and> last (gesture_history (snd (recognize_gesture remdups fist_frame HandTracker_init)))
       = ''fist''"
proof -
  have a: "length fist_frame = 21" by (simp add: fist_frame_def)
  have b: "length (frame_at 21 (7, 7)) = 21" by (simp add: frame_at_def)
  have c: "spec_finger_state fist_frame = spec_finger_state (frame_at 21 (7, 7))"
    by (simp add: spec_finger_state_def fist_frame_def frame_at_def)
  have pos: "0 < gesture_buffer_size HandTracker_init" by (simp add: HandTracker_init_def)
  note th = static_label_deterministic [OF a b c, of HandTracker_init remdups]
  from th have eq: "static_gesture fist_frame = static_gesture (frame_at 21 (7, 7))"
    by (rule conjunct1)
  from th obtain g where g: "static_gesture fist_frame = Inr g"
    and l: "0 < gesture_buffer_size HandTracker_init \<longrightarrow>
       last (gesture_history (snd (recognize_gesture remdups fist_frame HandTracker_init))) = g
       \<and> last (gesture_history (snd (recognize_gesture remdups fist_frame
            (snd (recognize_gesture remdups fist_frame HandTracker_init))))) = g"
    by (elim conjE exE)
  from g have "g = ''fist''" by (simp add: fist_frame_label)
  with l pos have
    "last (gesture_history (snd (recognize_gesture remdups fist_frame HandTracker_init))) = ''fist''"
    by blast
  with a b c eq pos show ?thesis by (intro conjI)
qed

section \<open>Centre and bounding box\<close>

text \<open>
  On the empty list neither function fails with \<open>EmptyInputError\<close>.
\<close>

theorem empty_input_counterexample:
  "get_hand_center [] \<noteq> Inl EmptyInputError \<and> get_bounding_box [] \<noteq> Inl EmptyInputError"
  by (simp add: get_hand_center_def get_bounding_box_def floordiv_def py_min_def)

text \<open>
  Claim C8, as the code has it. For the empty landmark list \<open>get_hand_center\<close> fails
  with \<open>ZeroDivisionError\<close>, the arithmetic fault of dividing by the length 0, and
  \<open>get_bounding_box\<close> fails with \<open>ValueError\<close>, raised by \<open>min\<close> of an empty
  list.
\<close>

theorem empty_input_raises:
  "get_hand_center [] = Inl ZeroDivisionError \<and> get_bounding_box [] = Inl ValueError"
  by (simp add: get_hand_center_def get_bounding_box_def floordiv_def py_min_def)

lemma floor_mean: "xs \<noteq> [] \<Longrightarrow> \<lfloor>spec_arithmetic_mean xs\<rfloor> = sum_list xs div int (length xs)"
  unfolding spec_arithmetic_mean_def
  by (metis floor_divide_of_int_eq of_int_of_nat_eq)

lemma get_hand_center_nonempty:
  assumes "landmarks \<noteq> []"
  shows "get_hand_center landmarks
           = Inr (sum_list (map fst landmarks) div int (length landmarks),
                  sum_list (map snd landmarks) div int (length landmarks))"
  using assms by (simp add: get_hand_center_def floordiv_def Let_def)

lemma py_min_Min: "xs \<noteq> [] \<Longrightarrow> py_min xs = Inr (Min (set xs))"
  by (cases xs) (simp_all add: py_min_def Min.set_eq_fold [symmetric])

lemma py_max_Max: "xs \<noteq> [] \<Longrightarrow> py_max xs = Inr (Max (set xs))"
  by (cases xs) (simp_all add: py_max_def Max.set_eq_fold [symmetric])

lemma get_bounding_box_nonempty:
  assumes "landmarks \<noteq> []"
  shows "get_bounding_box landmarks
           = Inr (Min (fst ` set landmarks), Min (snd ` set landmarks),
                  Max (fst ` set landmarks), Max (snd ` set landmarks))"
  using assms by (simp add: get_bounding_box_def Let_def py_min_Min py_max_Max)

text \<open>
  The centre of \<open>[(0,0),(1,1)]\<close> is \<open>(0,0)\<close>, while the arithmetic mean of the x
  coordinates is one half.
\<close>

theorem center_mean_counterexample:
  "get_hand_center [(0, 0), (1, 1)] = Inr (0, 0)
   \<and> spec_arithmetic_mean (map fst [(0, 0), (1, 1)]) = 1 / 2
   \<and> real_of_int 0 \<noteq> spec_arithmetic_mean (map fst [(0, 0), (1, 1)])"
  by (simp add: get_hand_center_def floordiv_def spec_arithmetic_mean_def)

text \<open>
  Claim C9, with the rounding the code does. For every non-empty list of points
  \<open>get_hand_center\<close> returns the floor of the arithmetic mean of the x coordinates
  and the floor of the arithmetic mean of the y coordinates (integer floor division),
  and \<open>get_bounding_box\<close> returns the least and greatest x and y; in particular the
  centre of \<open>[(0,0),(10,0),(10,10),(0,10)]\<close> is \<open>(5,5)\<close> and its bounding box is
  \<open>(0,0,10,10)\<close>.
\<close>

theorem center_is_floor_of_mean:
  assumes "landmarks \<noteq> []"
  shows "get_hand_center landmarks
           = Inr (\<lfloor>spec_arithmetic_mean (map fst landmarks)\<rfloor>, \<lfloor>spec_arithmetic_mean (map snd landmarks)\<rfloor>)
       \<and> get_bounding_box landmarks
           = Inr (Min (fst ` set landmarks), Min (snd ` set landmarks),
                  Max (fst ` set landmarks), Max (snd ` set landmarks))
       \<and> get_hand_center [(0, 0), (10, 0), (10, 10), (0, 10)] = Inr (5, 5)
       \<and> get_bounding_box [(0, 0), (10, 0), (10, 10), (0, 10)] = Inr (0, 0, 10, 10)"
proof -
  have 1: "get_hand_center landmarks
           = Inr (\<lfloor>spec_arithmetic_mean (map fst landmarks)\<rfloor>, \<lfloor>spec_arithmetic_mean (map snd landmarks)\<rfloor>)"
    using assms by (simp add: get_hand_center_nonempty floor_mean)
  have 2: "get_hand_center [(0, 0), (10, 0), (10, 10), (0, 10)] = Inr (5, 5)"
    by (simp add: get_hand_center_def floordiv_def)
  have 3: "get_bounding_box [(0, 0), (10, 0), (10, 10), (0, 10)] = Inr (0, 0, 10, 10)"
    by (simp add: get_bounding_box_def py_min_def py_max_def)
  from 1 2 3 get_bounding_box_nonempty [OF assms] show ?thesis by simp
qed

text \<open>
  The theorem at \<open>[(0,0),(1,1)]\<close>.
\<close>

theorem center_is_floor_of_mean_witness:
  "[(0, 0), (1, 1)] \<noteq> ([] :: landmarks)
   \<and> get_hand_center [(0, 0), (1, 1)] = Inr (0, 0)
   \<and> \<lfloor>spec_arithmetic_mean (map fst [(0, 0), (1, 1)])\<rfloor> = 0
   \<and> get_bounding_box [(0, 0), (1, 1)] = Inr (0, 0, 1, 1)"
proof -
  have ne: "[(0, 0), (1, 1)] \<noteq> ([] :: landmarks)" by simp
  have m: "\<lfloor>spec_arithmetic_mean (map fst [(0::int, 0::int), (1, 1)])\<rfloor> = 0"
    "\<lfloor>spec_arithmetic_mean (map snd [(0::int, 0::int), (1, 1)])\<rfloor> = 0"
    by (simp_all add: spec_arithmetic_mean_def)
  from center_is_floor_of_mean [OF ne] m show ?thesis by simp
qed

section \<open>The hold state machine of \<open>GestureController\<close>\<close>

lemma fired_simps [simp]:
  "fired [] = []"
  "fired (None # rs) = fired rs"
  "fired (Some a # rs) = a # fired rs"
  by (simp_all add: fired_def)

lemma fired_replicate_None [simp]: "fired (replicate n None) = []"
  by (induction n) simp_all

lemma hold_simps [simp]:
  "hold g [] = []"
  "hold g ((now, lm) # calls) = (now, g, lm) # hold g calls"
  by (simp_all add: hold_def)

lemma run_gestures_Cons:
  "run_gestures ((now, g, lm) # calls) c
     = (fst (process_gesture now g lm c) # fst (run_gestures calls (snd (process_gesture now g lm c))),
        snd (run_gestures calls (snd (process_gesture now g lm c))))"
  by (simp add: split_beta Let_def)

declare run_gestures.simps [simp del]

lemma run_gestures_Nil [simp]: "run_gestures [] c = ([], c)"
  by (simp add: run_gestures.simps)

lemma process_gesture_fired:
  assumes "fst (process_gesture now g lm c) = Some a"
  shows "last_gesture (snd (process_gesture now g lm c)) = Some g
       \<and> gesture_start_time (snd (process_gesture now g lm c)) = None"
  using assms
  by (auto simp: process_gesture_def split: if_splits option.splits)

lemma process_gesture_disarmed:
  assumes "last_gesture c = Some g" and "gesture_start_time c = None"
  shows "process_gesture now g lm c = (None, c)"
  using assms by (simp add: process_gesture_def held_long_enough_def)

lemma disarmed_hold:
  assumes "last_gesture c = Some g" and "gesture_start_time c = None"
  shows "run_gestures (hold g calls) c = (replicate (length calls) None, c)"
proof (induction calls)
  case Nil
  show ?case by simp
next
  case (Cons call calls)
  obtain now lm where call: "call = (now, lm)" by (cases call)
  show ?case
    unfolding call
    by (simp add: run_gestures_Cons process_gesture_disarmed [OF assms] Cons.IH)
qed

lemma at_most_one_fired:
  "length (fired (fst (run_gestures (hold g calls) c))) \<le> 1"
proof (induction calls arbitrary: c)
  case Nil
  show ?case by simp
next
  case (Cons call calls)
  obtain now lm where call: "call = (now, lm)" by (cases call)
  show ?case
  proof (cases "fst (process_gesture now g lm c)")
    case None
    then show ?thesis
      unfolding call using Cons.IH [of "snd (process_gesture now g lm c)"]
      by (simp add: run_gestures_Cons)
  next
    case (Some a)
    from process_gesture_fired [OF Some]
    have "run_gestures (hold g calls) (snd (process_gesture now g lm c))
            = (replicate (length calls) None, snd (process_gesture now g lm c))"
      by (intro disarmed_hold) simp_all
    with Some show ?thesis
      unfolding call by (simp add: run_gestures_Cons)
  qed
qed

lemma nothing_after_fire:
  assumes "fst (process_gesture now g lm c) \<noteq> None"
  shows "fst (run_gestures (hold g calls) (snd (process_gesture now g lm c)))
           = replicate (length calls) None"
proof -
  from assms obtain a where a: "fst (process_gesture now g lm c) = Some a" by auto
  from process_gesture_fired [OF a] show ?thesis
    by (simp add: disarmed_hold)
qed

lemma rearm:
  assumes "g \<noteq> g'" and "gesture_actions g = Some act" and "t0 \<noteq> 0"
    and "min_gesture_duration c \<le> t1 - t0"
  shows "fst (run_gestures [(t0, g, lm0), (t1, g, lm1)] (snd (process_gesture t' g' lm' c)))
           = [None, Some (act lm1)]"
proof -
  let ?c = "snd (process_gesture t' g' lm' c)"
  have l: "last_gesture ?c = Some g'" and d: "min_gesture_duration ?c = min_gesture_duration c"
    by (auto simp: process_gesture_def split: if_splits option.splits)
  from l assms(1) have 1: "process_gesture t0 g lm0 ?c
      = (None, ?c\<lparr>last_gesture := Some g, gesture_start_time := Some t0\<rparr>)"
    by (simp add: process_gesture_def)
  have 2: "process_gesture t1 g lm1 (?c\<lparr>last_gesture := Some g, gesture_start_time := Some t0\<rparr>)
      = (Some (act lm1), ?c\<lparr>last_gesture := Some g, gesture_start_time := None\<rparr>)"
    using assms(2,3,4) d by (simp add: process_gesture_def held_long_enough_def)
  show ?thesis by (simp add: run_gestures_Cons 1 2)
qed

lemma armed_hold:
  assumes "last_gesture c = Some g" and "gesture_start_time c = Some t0" and "t0 \<noteq> 0"
    and "gesture_actions g = Some act"
    and "\<exists>(t, lm)\<in>set calls. min_gesture_duration c \<le> t - t0"
  shows "\<exists>lm. fired (fst (run_gestures (hold g calls) c)) = [act lm]"
  using assms(5)
proof (induction calls)
  case Nil
  then show ?case by simp
next
  case (Cons call calls)
  obtain now lm where call: "call = (now, lm)" by (cases call)
  show ?case
  proof (cases "min_gesture_duration c \<le> now - t0")
    case True
    with assms(1-4) have p: "process_gesture now g lm c
        = (Some (act lm), c\<lparr>gesture_start_time := None\<rparr>)"
      by (simp add: process_gesture_def held_long_enough_def)
    have "run_gestures (hold g calls) (c\<lparr>gesture_start_time := None\<rparr>)
            = (replicate (length calls) None, c\<lparr>gesture_start_time := None\<rparr>)"
      by (rule disarmed_hold) (simp_all add: assms(1))
    then have "fired (fst (run_gestures (hold g ((now, lm) # calls)) c)) = [act lm]"
      by (simp add: run_gestures_Cons p)
    then show ?thesis unfolding call by blast
  next
    case False
    with assms(1-4) have p: "process_gesture now g lm c = (None, c)"
      by (simp add: process_gesture_def held_long_enough_def)
    from False Cons.prems have "\<exists>(t, lm)\<in>set calls. min_gesture_duration c \<le> t - t0"
      unfolding call by auto
    from Cons.IH [OF this] show ?thesis unfolding call by (simp add: run_gestures_Cons p)
  qed
qed

lemma open_hand_hold:
  assumes "last_gesture c \<noteq> Some ''open_hand''" and "min_gesture_duration c = 1"
    and "t0 \<noteq> 0" and "\<exists>(t, lm)\<in>set calls. 1 \<le> t - t0"
  shows "fired (fst (run_gestures (hold ''open_hand'' ((t0, lm0) # calls)) c))
           = [''Open hand detected - Action: Stop/Pause'']"
proof -
  let ?c = "c\<lparr>last_gesture := Some ''open_hand'', gesture_start_time := Some t0\<rparr>"
  from assms(1) have p: "process_gesture t0 ''open_hand'' lm0 c = (None, ?c)"
    by (auto simp: process_gesture_def)
  have act: "gesture_actions ''open_hand'' = Some on_open_hand"
    by (simp add: gesture_actions_def)
  have ex: "\<exists>(t, lm)\<in>set calls. min_gesture_duration ?c \<le> t - t0"
    using assms(2,4) by simp
  from armed_hold [of ?c "''open_hand''" t0 on_open_hand calls, OF _ _ assms(3) act ex]
  obtain lm where "fired (fst (run_gestures (hold ''open_hand'' calls) ?c)) = [on_open_hand lm]"
    by auto
  then show ?thesis by (simp add: run_gestures_Cons p on_open_hand_def)
qed

text \<open>
  Claim C1. In any sequence of consecutive calls of \<open>process_gesture\<close> with the same
  label, from any controller state and with any clock readings, at most one result is
  not \<open>None\<close>; once a call has fired, every further call with that label returns
  \<open>None\<close>. A single call with a different label re-arms the controller: the next
  call with the first label restarts the timer and a call at least the minimum
  duration later fires again. In particular a hold of open_hand that starts at \<open>s0\<close>
  and contains a call at least 1.0 later fires exactly once, with the stop/pause
  action, however long it continues. (The start reading must not be the float
  \<open>0.0\<close>, which \<open>self.gesture_start_time and ...\<close> treats as unset;
  \<open>time.time()\<close> counts seconds since 1970.)
\<close>

theorem fire_once_per_hold:
  "length (fired (fst (run_gestures (hold g calls) c))) \<le> 1
   \<and> (fst (process_gesture now g lm c1) \<noteq> None \<longrightarrow>
        fst (run_gestures (hold g calls) (snd (process_gesture now g lm c1)))
          = replicate (length calls) None)
   \<and> (g \<noteq> g' \<and> gesture_actions g = Some act \<and> t0 \<noteq> 0 \<and> min_gesture_duration c2 \<le> t1 - t0 \<longrightarrow>
        fst (run_gestures [(t0, g, lm0), (t1, g, lm1)] (snd (process_gesture t' g' lm' c2)))
          = [None, Some (act lm1)])
   \<and> (last_gesture c3 \<noteq> Some ''open_hand'' \<and> min_gesture_duration c3 = 1 \<and> s0 \<noteq> 0
        \<and> (\<exists>(t, lm)\<in>set calls'. 1 \<le> t - s0) \<longrightarrow>
        fired (fst (run_gestures (hold ''open_hand'' ((s0, lm0) # calls')) c3))
          = [''Open hand detected - Action: Stop/Pause''])"
  using at_most_one_fired [of g calls c] nothing_after_fire [of now g lm c1 calls]
    rearm [of g g' act t0 c2 t1 lm0 lm1 t' lm'] open_hand_hold [of c3 s0 calls' lm0]
  by blast


text \<open>
  The theorem at a hold of open_hand from clock reading 1000 to 1002, a single fist
  call, and a second hold.
\<close>

theorem fire_once_per_hold_witness:
  "length (fired (fst (run_gestures
       (hold ''open_hand'' [(1000, fist_frame), (1000.5, fist_frame), (1001, fist_frame),
          (1002, fist_frame)]) GestureController_init))) \<le> 1
   \<and> fst (process_gesture 1001 ''open_hand'' fist_frame
         \<lparr>last_gesture = Some ''open_hand'', gesture_start_time = Some 1000,
            min_gesture_duration = 1\<rparr>) \<noteq> None
   \<and> fst (run_gestures
         (hold ''open_hand'' [(1000, fist_frame), (1000.5, fist_frame), (1001, fist_frame),
            (1002, fist_frame)])
         (snd (process_gesture 1001 ''open_hand'' fist_frame
            \<lparr>last_gesture = Some ''open_hand'', gesture_start_time = Some 1000,
               min_gesture_duration = 1\<rparr>)))
       = [None, None, None, None]
   \<and> ''open_hand'' \<noteq> ''fist'' \<and> gesture_actions ''open_hand'' = Some on_open_hand
   \<and> (1002 :: real) \<noteq> 0
   \<and> min_gesture_duration
         \<lparr>last_gesture = Some ''open_hand'', gesture_start_time = None,
            min_gesture_duration = 1\<rparr> \<le> 1003 - 1002
   \<and> fst (run_gestures [(1002, ''open_hand'', fist_frame), (1003, ''open_hand'', fist_frame)]
         (snd (process_gesture 1001.5 ''fist'' fist_frame
            \<lparr>last_gesture = Some ''open_hand'', gesture_start_time = None,
               min_gesture_duration = 1\<rparr>)))
       = [None, Some ''Open hand detected - Action: Stop/Pause'']
   \<and> last_gesture GestureController_init \<noteq> Some ''open_hand''
   \<and> min_gesture_duration GestureController_init = 1
   \<and> (1000 :: real) \<noteq> 0
   \<and> (\<exists>(t, lm)\<in>set [(1000.5, fist_frame), (1001, fist_frame), (1002, fist_frame)].
         1 \<le> t - (1000 :: real))
   \<and> fired (fst (run_gestures
         (hold ''open_hand'' ((1000, fist_frame) #
            [(1000.5, fist_frame), (1001, fist_frame), (1002, fist_frame)]))
         GestureController_init))
       = [''Open hand detected - Action: Stop/Pause'']"
proof -
  let ?armed = "\<lparr>last_gesture = Some ''open_hand'', gesture_start_time = Some 1000,
            min_gesture_duration = 1\<rparr>"
  let ?done = "\<lparr>last_gesture = Some ''open_hand'', gesture_start_time = None,
            min_gesture_duration = 1\<rparr>"
  let ?calls = "[(1000, fist_frame), (1000.5, fist_frame), (1001, fist_frame),
          (1002 :: real, fist_frame)]"
  let ?rest = "[(1000.5, fist_frame), (1001, fist_frame), (1002 :: real, fist_frame)]"
  note th = fire_once_per_hold [where g = "''open_hand''" and calls = ?calls
      and c = GestureController_init and now = 1001 and lm = fist_frame and ?c1.0 = ?armed
      and g' = "''fist''" and act = on_open_hand and ?t0.0 = 1002 and ?c2.0 = ?done
      and ?t1.0 = 1003 and ?lm0.0 = fist_frame and ?lm1.0 = fist_frame and t' = "1001.5"
      and lm' = fist_frame and ?c3.0 = GestureController_init and ?s0.0 = 1000
      and calls' = ?rest]
  have h2: "fst (process_gesture 1001 ''open_hand'' fist_frame ?armed) \<noteq> None"
    by (simp add: process_gesture_def held_long_enough_def gesture_actions_def)
  have h3: "''open_hand'' \<noteq> ''fist'' \<and> gesture_actions ''open_hand'' = Some on_open_hand
      \<and> (1002 :: real) \<noteq> 0 \<and> min_gesture_duration ?done \<le> 1003 - 1002"
    by (simp add: gesture_actions_def)
  have h4: "last_gesture GestureController_init \<noteq> Some ''open_hand''
      \<and> min_gesture_duration GestureController_init = 1 \<and> (1000 :: real) \<noteq> 0
      \<and> (\<exists>(t, lm)\<in>set ?rest. 1 \<le> t - (1000 :: real))"
    by (simp add: GestureController_init_def)
  from th h2 h3 h4 show ?thesis
    by (simp add: on_open_hand_def)
qed

section \<open>Swipe detection in \<open>recognize_advanced_gestures\<close>\<close>

lemma push_position_last:
  assumes "hand_positions_history (push_position center r) \<noteq> []"
  shows "last (hand_positions_history (push_position center r)) = center"
proof (cases "length (hand_positions_history r @ [center]) > position_history_size r")
  case True
  with assms have "hand_positions_history r \<noteq> []"
    by (auto simp: push_position_def Let_def)
  then obtain x xs where "hand_positions_history r = x # xs"
    by (cases "hand_positions_history r") auto
  with True show ?thesis by (simp add: push_position_def Let_def)
next
  case False
  then show ?thesis by (simp add: push_position_def Let_def)
qed

lemma velocity_after_update:
  assumes "get_hand_center_adv lm = Inr center"
  shows "calculate_hand_velocity (push_position center r) lm = Inr (0, 0)"
proof (cases "length (hand_positions_history (push_position center r)) < 2")
  case True
  then show ?thesis by (simp add: calculate_hand_velocity_def)
next
  case False
  then have "hand_positions_history (push_position center r) \<noteq> []" by auto
  from push_position_last [OF this] False assms show ?thesis
    by (simp add: calculate_hand_velocity_def bind_err_def Let_def)
qed

lemma swipe_after_update:
  assumes "get_hand_center_adv lm = Inr center"
  shows "detect_swipe_right (push_position center r) lm = Inr False"
    and "detect_swipe_left (push_position center r) lm = Inr False"
  by (simp_all add: detect_swipe_right_def detect_swipe_left_def bind_err_def
      velocity_after_update [OF assms])

lemma detect_loop_mem:
  "detect_loop r lm ps acc = Inr gs \<Longrightarrow> name \<in> set gs \<Longrightarrow>
     name \<in> set acc \<or> (\<exists>det. (name, det) \<in> set ps \<and> det r lm = Inr True)"
proof (induction ps arbitrary: acc)
  case Nil
  then show ?case by simp
next
  case (Cons p ps)
  obtain n d where p: "p = (n, d)" by (cases p)
  from Cons.prems(1) obtain b where b: "d r lm = Inr b"
    and rest: "detect_loop r lm ps (if b then acc @ [n] else acc) = Inr gs"
    unfolding p by (auto split: sum.splits)
  from Cons.IH [OF rest Cons.prems(2)] b show ?case
    unfolding p by (auto split: if_splits)
qed

text \<open>
  \<open>recognize_advanced_gestures\<close> appends the centre of the current frame before it
  runs the detectors, so \<open>calculate_hand_velocity\<close> subtracts the current centre from
  itself and neither swipe is ever reported.
\<close>

lemma swipes_never_detected:
  assumes "fst (recognize_advanced_gestures lm r) = Inr gs"
  shows "''swipe_right'' \<notin> set gs \<and> ''swipe_left'' \<notin> set gs"
proof -
  from assms obtain center where c: "get_hand_center_adv lm = Inr center"
    and l: "detect_loop (push_position center r) lm gesture_patterns [] = Inr gs"
    by (auto simp: recognize_advanced_gestures_def Let_def split: sum.splits)
  have "''swipe_right'' \<notin> set gs"
  proof
    assume "''swipe_right'' \<in> set gs"
    from detect_loop_mem [OF l this] swipe_after_update(1) [OF c, of r]
    show False by (auto simp: gesture_patterns_def)
  qed
  moreover have "''swipe_left'' \<notin> set gs"
  proof
    assume "''swipe_left'' \<in> set gs"
    from detect_loop_mem [OF l this] swipe_after_update(2) [OF c, of r]
    show False by (auto simp: gesture_patterns_def)
  qed
  ultimately show ?thesis by simp
qed

lemma center_frame_at: "0 < n \<Longrightarrow> get_hand_center_adv (frame_at n p) = Inr p"
  by (cases p) (simp add: get_hand_center_adv_def frame_at_def bind_err_def floordiv_def
      sum_list_replicate)

lemma getitem_frame_at: "i < n \<Longrightarrow> getitem (frame_at n p) i = Inr p"
  by (simp add: getitem_def frame_at_def)

lemma detectors_frame_at:
  fixes r :: recognizer
  assumes "length (hand_positions_history r) < 15"
  shows "detect_pinch r (frame_at 21 p) = Inr True"
    and "detect_spread r (frame_at 21 p) = Inr False"
    and "detect_wave r (frame_at 21 p) = Inr False"
    and "detect_circle r (frame_at 21 p) = Inr False"
    and "detect_ok_sign r (frame_at 21 p) = Inr False"
    and "detect_rock_on r (frame_at 21 p) = Inr False"
  using assms
  by (simp_all add: detect_pinch_def detect_spread_def detect_wave_def detect_circle_def
      detect_ok_sign_def detect_rock_on_def bind_err_def getitem_frame_at y_less_def
      calculate_distance_def Let_def)

text \<open>
  Claim C5, evaluated on the code. After two frames centred at \<open>(100,100)\<close> a frame
  centred at \<open>(130,100)\<close> arrives: the two most recent centres differ by \<open>(30,0)\<close>,
  which is also the velocity \<open>calculate_hand_velocity\<close> gives before the history
  update, so the claim has swipe_right detected. \<open>recognize_advanced_gestures\<close>
  reports pinch only: on the updated history \<open>detect_swipe_right\<close> is false.
\<close>

theorem swipe_right_not_detected:
  "snd (recognize_advanced_gestures (frame_at 21 (100, 100))
          (snd (recognize_advanced_gestures (frame_at 21 (100, 100))
                  AdvancedGestureRecognizer_init)))
     = \<lparr>hand_positions_history = [(100, 100), (100, 100)], position_history_size = 30\<rparr>
   \<and> recognize_advanced_gestures (frame_at 21 (130, 100))
        \<lparr>hand_positions_history = [(100, 100), (100, 100)], position_history_size = 30\<rparr>
     = (Inr [''pinch''],
        \<lparr>hand_positions_history = [(100, 100), (100, 100), (130, 100)],
           position_history_size = 30\<rparr>)
   \<and> calculate_hand_velocity
        \<lparr>hand_positions_history = [(100, 100), (100, 100)], position_history_size = 30\<rparr>
        (frame_at 21 (130, 100)) = Inr (30, 0)
   \<and> detect_swipe_right
        \<lparr>hand_positions_history = [(100, 100), (100, 100), (130, 100)],
           position_history_size = 30\<rparr>
        (frame_at 21 (130, 100)) = Inr False"
  by (simp add: recognize_advanced_gestures_def center_frame_at push_position_def Let_def
      AdvancedGestureRecognizer_init_def gesture_patterns_def detectors_frame_at
      detect_swipe_right_def detect_swipe_left_def calculate_hand_velocity_def bind_err_def)

end
